theory Spec2Isabelle
  imports Complex_Main "HOL-Library.Multiset"
begin

section \<open>Data model (types.ts)\<close>

text \<open>
  A task carries an identifier, a priority, an opaque payload and an optional creation
  time. The TypeScript type of \<open>priority\<close> is the closed union of five strings, but
  at run time any string, or no value at all, can stand there; the field is therefore a
  \<open>string option\<close> (\<open>None\<close> is a missing priority). Field names follow the source;
  \<open>id\<close> is written \<open>tid\<close> (and \<open>mid\<close>, \<open>msource\<close>, \<open>mtype\<close>, ... for a
  message) because record fields share one name space.
\<close>

type_synonym timestamp = int

type_synonym error = string

record 't task =
  tid :: string
  priority :: "string option"
  payload :: 't
  createdAt :: "timestamp option"

record 'm message =
  mid :: string
  msource :: string
  mtype :: string
  mpayload :: 'm
  mpriority :: "string option"
  mcreatedAt :: "timestamp option"

datatype lifecycle_phase = Boot | Work | Idle | Shutdown

subsection \<open>The priority table\<close>

text \<open>
  \<open>PRIORITY_ORDER\<close> is an object literal, and \<open>PRIORITY_ORDER[k]\<close> is a JavaScript
  property read: it finds the five own properties, then the members every object
  literal inherits from \<open>Object.prototype\<close> (functions, and for \<open>__proto__\<close> an
  object), and yields \<open>undefined\<close> for every other key. A value read from the table is
  thus a number, \<open>undefined\<close>, or a function or object.
\<close>

datatype js_value = Num int | Undefined | Obj

definition object_prototype_keys :: "string list" where
  "object_prototype_keys =
     [''constructor'', ''__defineGetter__'', ''__defineSetter__'', ''hasOwnProperty'',
      ''__lookupGetter__'', ''__lookupSetter__'', ''isPrototypeOf'',
      ''propertyIsEnumerable'', ''toString'', ''valueOf'', ''__proto__'',
      ''toLocaleString'']"

definition PRIORITY_ORDER :: "string \<Rightarrow> js_value" where
  "PRIORITY_ORDER k =
     (if k = ''interrupt'' then Num 0
      else if k = ''sprint'' then Num 1
      else if k = ''parallel'' then Num 2
      else if k = ''queue'' then Num 3
      else if k = ''backlog'' then Num 4
      else if k \<in> set object_prototype_keys then Obj
      else Undefined)"

text \<open>The key a property read uses: a missing priority reads the key \<open>undefined\<close>.\<close>

fun property_key :: "string option \<Rightarrow> string" where
  "property_key None = ''undefined''"
| "property_key (Some k) = k"

text \<open>\<open>a ?? d\<close>: only \<open>undefined\<close> (or \<open>null\<close>) is replaced by the default.\<close>

fun nullish :: "js_value \<Rightarrow> js_value \<Rightarrow> js_value" where
  "nullish Undefined d = d"
| "nullish v d = v"

text \<open>\<open>a - b\<close>: a number when both operands are numbers, \<open>NaN\<close> (here \<open>None\<close>)
  when one of them is a function or an object.\<close>

fun js_minus :: "js_value \<Rightarrow> js_value \<Rightarrow> int option" where
  "js_minus (Num a) (Num b) = Some (a - b)"
| "js_minus a b = None"

section \<open>Triage (Poller.triage)\<close>

definition priority_rank :: "('t, 'x) task_scheme \<Rightarrow> js_value" where
  "priority_rank a = nullish (PRIORITY_ORDER (property_key (priority a))) (Num 999)"

definition compare_priority ::
  "('t, 'x) task_scheme \<Rightarrow> ('t, 'x) task_scheme \<Rightarrow> int option" where
  "compare_priority a b =
     (let pa = priority_rank a; pb = priority_rank b in js_minus pa pb)"

text \<open>
  \<open>Array.prototype.sort\<close> with a comparator. The language turns a comparator result
  of \<open>NaN\<close> into \<open>+0\<close> (\<open>sort_compare\<close>) and requires the sort to be stable, which
  fixes the result whenever the comparator is consistent; stable insertion is the
  representative used here. When comparisons yield \<open>NaN\<close> the comparator is not
  consistent and the resulting order is left to the implementation.
\<close>

definition sort_compare :: "('a \<Rightarrow> 'a \<Rightarrow> int option) \<Rightarrow> 'a \<Rightarrow> 'a \<Rightarrow> int" where
  "sort_compare cmp x y = (case cmp x y of None \<Rightarrow> 0 | Some v \<Rightarrow> v)"

fun insert_stable :: "('a \<Rightarrow> 'a \<Rightarrow> int option) \<Rightarrow> 'a \<Rightarrow> 'a list \<Rightarrow> 'a list" where
  "insert_stable cmp x [] = [x]"
| "insert_stable cmp x (y # ys) =
     (if sort_compare cmp x y \<le> 0 then x # y # ys else y # insert_stable cmp x ys)"

definition array_sort :: "('a \<Rightarrow> 'a \<Rightarrow> int option) \<Rightarrow> 'a list \<Rightarrow> 'a list" where
  "array_sort cmp xs = foldr (insert_stable cmp) xs []"

definition triage :: "('t, 'x) task_scheme list \<Rightarrow> ('t, 'x) task_scheme list" where
  "triage tasks = array_sort compare_priority tasks"





text \<open>
  The rank in the specification's words: the five known priorities have ranks 0 to 4,
  and every unrecognised or missing value ranks after them.
\<close>

definition spec_rank :: "string option \<Rightarrow> int" where
  "spec_rank p =
     (if p = Some ''interrupt'' then 0
      else if p = Some ''sprint'' then 1
      else if p = Some ''parallel'' then 2
      else if p = Some ''queue'' then 3
      else if p = Some ''backlog'' then 4
      else 999)"

definition rank :: "('t, 'x) task_scheme \<Rightarrow> int" where
  "rank a = spec_rank (priority a)"

definition known_priority :: "('t, 'x) task_scheme \<Rightarrow> bool" where
  "known_priority a = (rank a \<le> 4)"

text \<open>
  Tasks whose priority does not name an inherited member of the table: every task of
  the declared type, every other unrecognised string, and a missing priority.
\<close>

definition numeric_priority :: "('t, 'x) task_scheme \<Rightarrow> bool" where
  "numeric_priority a = (property_key (priority a) \<notin> set object_prototype_keys)"

section \<open>The collaborators (TaskSource, LifecycleHooks)\<close>

text \<open>
  The work source and the hooks are caller-supplied code. Each call is a transition of
  an external world \<open>'w\<close> that settles as resolved or rejected (a synchronous throw
  inside an awaited call is caught the same way as a rejection). Source operations
  are asynchronous, as their interface declares: a failing fetch is a rejected
  promise. While the engine awaits a call, the caller's code may invoke \<open>stop()\<close> on
  it; \<open>stop_called\<close> reports that this happened during the call. Other re-entrant
  uses of the engine (\<open>start\<close> or \<open>poll\<close> from inside a hook, \<open>stop\<close> from inside the
  error or the shutdown hook) are outside the model.
\<close>

datatype 'a outcome = Resolved 'a | Rejected error

datatype 'a reply = Reply (settled: "'a outcome") (stop_called: bool)

type_synonym ('a, 'w) external = "'w \<Rightarrow> 'a reply \<times> 'w"

record ('t, 'm, 'w) task_source =
  getTasks :: "('t task list, 'w) external"
  getMessages :: "('m message list, 'w) external"
  claim :: "string \<Rightarrow> (bool, 'w) external"
  complete :: "string \<Rightarrow> (unit, 'w) external"
  ack :: "string \<Rightarrow> string \<Rightarrow> (unit, 'w) external"

text \<open>Every hook is optional; \<open>onBoot\<close> may return a boolean or nothing.\<close>

record ('t, 'm, 'w) lifecycle_hooks =
  onBoot :: "(string \<Rightarrow> (bool option, 'w) external) option"
  onWork :: "('t task list \<Rightarrow> 'm message list \<Rightarrow> (unit, 'w) external) option"
  onIdle :: "(string \<Rightarrow> (unit, 'w) external) option"
  onShutdown :: "(string \<Rightarrow> (unit, 'w) external) option"
  onTaskStart :: "('t task \<Rightarrow> (unit, 'w) external) option"
  onTaskComplete :: "('t task \<Rightarrow> (unit, 'w) external) option"
  onError :: "(error \<Rightarrow> lifecycle_phase \<Rightarrow> 't task option \<Rightarrow> (unit, 'w) external) option"

record ('t, 'm, 'w) poll_hooks_options =
  opt_workerId :: string
  opt_source :: "('t, 'm, 'w) task_source"
  intervalMs :: "real option"
  maxIntervalMs :: "real option"
  opt_backoffMultiplier :: "real option"

text \<open>The calls the engine makes, as they appear in the trace.\<close>

datatype ('t, 'm) call =
    GetTasks
  | GetMessages
  | Claim string
  | Complete string
  | Ack string string
  | OnBoot string
  | OnWork "'t task list" "'m message list"
  | OnIdle string
  | OnShutdown string
  | OnTaskStart "'t task"
  | OnTaskComplete "'t task"
  | OnError error lifecycle_phase "'t task option"

section \<open>The engine state (class Poller)\<close>

text \<open>
  The first ten fields are the private fields of the class; intervals are JavaScript
  numbers, modelled as reals (finite values, rounding not modelled). \<open>timer\<close> holds
  the handle of the last \<open>setTimeout\<close>. The remaining fields are the surroundings the
  engine acts on: the external \<open>world\<close>; \<open>race\<close>, which tells for a world in which
  both fetches were rejected whether the message fetch was rejected first; the
  \<open>trace\<close> of calls made so far, each with the failure it ended in, if any; and the
  host's table of pending \<open>timeouts\<close> (handle and delay) with its next fresh handle.
\<close>

record ('t, 'm, 'w) poller =
  workerId :: string
  source :: "('t, 'm, 'w) task_source"
  baseInterval :: real
  maxInterval :: real
  backoffMultiplier :: real
  currentInterval :: real
  hooks :: "('t, 'm, 'w) lifecycle_hooks"
  phase :: lifecycle_phase
  running :: bool
  timer :: "nat option"
  world :: 'w
  race :: "'w \<Rightarrow> bool"
  trace :: "(('t, 'm) call \<times> error option) list"
  timeouts :: "(nat \<times> real) list"
  nextHandle :: nat

definition no_hooks :: "('t, 'm, 'w) lifecycle_hooks" where
  "no_hooks = \<lparr>onBoot = None, onWork = None, onIdle = None, onShutdown = None,
                onTaskStart = None, onTaskComplete = None, onError = None\<rparr>"

text \<open>The constructor; the initial world and the race oracle are the surroundings.\<close>

definition Poller ::
  "('t, 'm, 'w) poll_hooks_options \<Rightarrow> ('t, 'm, 'w) lifecycle_hooks option \<Rightarrow> 'w \<Rightarrow> ('w \<Rightarrow> bool)
   \<Rightarrow> ('t, 'm, 'w) poller" where
  "Poller options hks w rc =
     \<lparr>workerId = opt_workerId options,
      source = opt_source options,
      baseInterval = (case intervalMs options of None \<Rightarrow> 5000 | Some v \<Rightarrow> v),
      maxInterval = (case maxIntervalMs options of None \<Rightarrow> 60000 | Some v \<Rightarrow> v),
      backoffMultiplier = (case opt_backoffMultiplier options of None \<Rightarrow> 3 / 2 | Some v \<Rightarrow> v),
      currentInterval = (case intervalMs options of None \<Rightarrow> 5000 | Some v \<Rightarrow> v),
      hooks = (case hks of None \<Rightarrow> no_hooks | Some h \<Rightarrow> h),
      phase = Boot,
      running = False,
      timer = None,
      world = w,
      race = rc,
      trace = [],
      timeouts = [],
      nextHandle = 0\<rparr>"

definition createPoller ::
  "('t, 'm, 'w) poll_hooks_options \<Rightarrow> ('t, 'm, 'w) lifecycle_hooks option \<Rightarrow> 'w \<Rightarrow> ('w \<Rightarrow> bool)
   \<Rightarrow> ('t, 'm, 'w) poller" where
  "createPoller options hks w rc = Poller options hks w rc"

section \<open>Asynchronous control flow\<close>

text \<open>
  An engine method is a state transformer that settles as resolved or rejected.
  \<open>and_then\<close> is sequencing of awaited statements (a rejection skips the rest),
  \<open>try_catch\<close> is \<open>try { ... } catch (err) { ... }\<close>.
\<close>

definition resolve :: "'a \<Rightarrow> 's \<Rightarrow> 'a outcome \<times> 's" where
  "resolve v s = (Resolved v, s)"

definition and_then ::
  "('s \<Rightarrow> 'a outcome \<times> 's) \<Rightarrow> ('a \<Rightarrow> 's \<Rightarrow> 'b outcome \<times> 's) \<Rightarrow> 's \<Rightarrow> 'b outcome \<times> 's" where
  "and_then m f s =
     (case m s of (Resolved v, s1) \<Rightarrow> f v s1 | (Rejected err, s1) \<Rightarrow> (Rejected err, s1))"

definition try_catch ::
  "('s \<Rightarrow> 'a outcome \<times> 's) \<Rightarrow> (error \<Rightarrow> 's \<Rightarrow> 'a outcome \<times> 's) \<Rightarrow> 's \<Rightarrow> 'a outcome \<times> 's" where
  "try_catch m handler s =
     (case m s of (Resolved v, s1) \<Rightarrow> (Resolved v, s1) | (Rejected err, s1) \<Rightarrow> handler err s1)"

fun failure :: "'a outcome \<Rightarrow> error option" where
  "failure (Resolved v) = None"
| "failure (Rejected err) = Some err"

text \<open>One external call: the world moves and the call is recorded.\<close>

definition direct ::
  "('t, 'm) call \<Rightarrow> ('a, 'w) external \<Rightarrow> ('t, 'm, 'w) poller \<Rightarrow> 'a reply \<times> ('t, 'm, 'w) poller" where
  "direct c f s =
     (case f (world s) of
        (rep, w) \<Rightarrow> (rep, s\<lparr>world := w, trace := trace s @ [(c, failure (settled rep))]\<rparr>))"

section \<open>Error isolation and shutdown (Poller.handleError, Poller.stop)\<close>

definition handleError ::
  "error \<Rightarrow> lifecycle_phase \<Rightarrow> 't task option \<Rightarrow> ('t, 'm, 'w) poller
   \<Rightarrow> unit outcome \<times> ('t, 'm, 'w) poller" where
  "handleError err ph task s =
     (case onError (hooks s) of
        None \<Rightarrow> (Resolved (), s)
      | Some f \<Rightarrow>
          (case direct (OnError err ph task) (f err ph task) s of
             (rep, s1) \<Rightarrow>
               (case settled rep of
                  Resolved u \<Rightarrow> (Resolved (), s1)
                | Rejected secondary \<Rightarrow> (Resolved (), s1))))"

definition clearTimeout :: "nat \<Rightarrow> (nat \<times> real) list \<Rightarrow> (nat \<times> real) list" where
  "clearTimeout h pending = filter (\<lambda>p. fst p \<noteq> h) pending"

definition stop :: "('t, 'm, 'w) poller \<Rightarrow> unit outcome \<times> ('t, 'm, 'w) poller" where
  "stop s =
     (let s1 = s\<lparr>running := False\<rparr>;
          s2 = (case timer s1 of
                  None \<Rightarrow> s1
                | Some h \<Rightarrow> s1\<lparr>timeouts := clearTimeout h (timeouts s1), timer := None\<rparr>);
          s3 = s2\<lparr>phase := Shutdown\<rparr>
      in try_catch
           (\<lambda>s. case onShutdown (hooks s) of
                   None \<Rightarrow> (Resolved (), s)
                 | Some f \<Rightarrow>
                     (case direct (OnShutdown (workerId s)) (f (workerId s)) s of
                        (rep, s') \<Rightarrow> (settled rep, s')))
           (\<lambda>err. handleError err Shutdown None)
           s3)"

text \<open>
  An awaited call of the polling cycle: if \<open>stop()\<close> was invoked while the engine was
  suspended in it, the engine resumes in the state \<open>stop\<close> leaves.
\<close>

definition await ::
  "('t, 'm) call \<Rightarrow> ('a, 'w) external \<Rightarrow> ('t, 'm, 'w) poller \<Rightarrow> 'a outcome \<times> ('t, 'm, 'w) poller" where
  "await c f s =
     (case direct c f s of
        (rep, s1) \<Rightarrow> (settled rep, if stop_called rep then snd (stop s1) else s1))"

text \<open>\<open>await this.hooks.h?.(...)\<close>: an absent hook is not called and yields the default.\<close>

definition await_hook ::
  "('t, 'm) call \<Rightarrow> ('a, 'w) external option \<Rightarrow> 'a \<Rightarrow> ('t, 'm, 'w) poller
   \<Rightarrow> 'a outcome \<times> ('t, 'm, 'w) poller" where
  "await_hook c h d s = (case h of None \<Rightarrow> (Resolved d, s) | Some f \<Rightarrow> await c f s)"

section \<open>Task processing (Poller.processTask)\<close>

definition processTask ::
  "'t task \<Rightarrow> ('t, 'm, 'w) poller \<Rightarrow> unit outcome \<times> ('t, 'm, 'w) poller" where
  "processTask task =
     try_catch
       (and_then (\<lambda>s. await (Claim (tid task)) (claim (source s) (tid task)) s)
          (\<lambda>claimed.
             if \<not> claimed then resolve ()
             else
               and_then
                 (\<lambda>s. await_hook (OnTaskStart task)
                        (map_option (\<lambda>f. f task) (onTaskStart (hooks s))) () s)
                 (\<lambda>u. and_then
                        (\<lambda>s. await (Complete (tid task)) (complete (source s) (tid task)) s)
                        (\<lambda>u s. await_hook (OnTaskComplete task)
                                 (map_option (\<lambda>f. f task) (onTaskComplete (hooks s))) () s))))
       (\<lambda>err. handleError err Work (Some task))"

section \<open>The poll cycle (Poller.poll, Poller.scheduleNext)\<close>

definition setTimeout :: "real \<Rightarrow> ('t, 'm, 'w) poller \<Rightarrow> ('t, 'm, 'w) poller" where
  "setTimeout delay s =
     s\<lparr>timer := Some (nextHandle s),
       timeouts := timeouts s @ [(nextHandle s, delay)],
       nextHandle := Suc (nextHandle s)\<rparr>"

definition scheduleNext :: "('t, 'm, 'w) poller \<Rightarrow> ('t, 'm, 'w) poller" where
  "scheduleNext s = (if \<not> running s then s else setTimeout (currentInterval s) s)"

text \<open>
  \<open>Promise.all([getTasks(), getMessages()])\<close>: both fetches are started; the result
  is both values, or the rejection that came first.
\<close>

definition fetch ::
  "('t, 'm, 'w) poller \<Rightarrow> ('t task list \<times> 'm message list) outcome \<times> ('t, 'm, 'w) poller" where
  "fetch s =
     (case await GetTasks (getTasks (source s)) s of
        (rt, s1) \<Rightarrow>
          (case await GetMessages (getMessages (source s1)) s1 of
             (rm, s2) \<Rightarrow>
               (case rt of
                  Resolved tasks \<Rightarrow>
                    (case rm of
                       Resolved messages \<Rightarrow> (Resolved (tasks, messages), s2)
                     | Rejected e2 \<Rightarrow> (Rejected e2, s2))
                | Rejected e1 \<Rightarrow>
                    (case rm of
                       Resolved messages \<Rightarrow> (Rejected e1, s2)
                     | Rejected e2 \<Rightarrow>
                         (Rejected (if race s2 (world s2) then e2 else e1), s2)))))"

text \<open>The loop over the triaged tasks, with its check of the running flag.\<close>

fun processTasks ::
  "'t task list \<Rightarrow> ('t, 'm, 'w) poller \<Rightarrow> unit outcome \<times> ('t, 'm, 'w) poller" where
  "processTasks [] s = (Resolved (), s)"
| "processTasks (task # rest) s =
     (if \<not> running s then (Resolved (), s)
      else (case processTask task s of
              (Resolved u, s1) \<Rightarrow> processTasks rest s1
            | (Rejected err, s1) \<Rightarrow> (Rejected err, s1)))"

definition ack_text :: "'m message \<Rightarrow> string" where
  "ack_text msg = ''Received '' @ mtype msg @ '': '' @ mid msg"

definition ackMessage ::
  "'m message \<Rightarrow> ('t, 'm, 'w) poller \<Rightarrow> unit outcome \<times> ('t, 'm, 'w) poller" where
  "ackMessage msg =
     try_catch
       (\<lambda>s. await (Ack (msource msg) (ack_text msg)) (ack (source s) (msource msg) (ack_text msg)) s)
       (\<lambda>err. handleError err Work None)"

text \<open>The loop over the messages.\<close>

fun ackMessages ::
  "'m message list \<Rightarrow> ('t, 'm, 'w) poller \<Rightarrow> unit outcome \<times> ('t, 'm, 'w) poller" where
  "ackMessages [] s = (Resolved (), s)"
| "ackMessages (msg # rest) s =
     (case ackMessage msg s of
        (Resolved u, s1) \<Rightarrow> ackMessages rest s1
      | (Rejected err, s1) \<Rightarrow> (Rejected err, s1))"

text \<open>The two branches of a cycle whose fetch succeeded.\<close>

definition work_cycle ::
  "'t task list \<Rightarrow> 'm message list \<Rightarrow> ('t, 'm, 'w) poller \<Rightarrow> unit outcome \<times> ('t, 'm, 'w) poller" where
  "work_cycle sortedTasks messages s =
     and_then
       (try_catch
          (\<lambda>s. await_hook (OnWork sortedTasks messages)
                 (map_option (\<lambda>f. f sortedTasks messages) (onWork (hooks s))) () s)
          (\<lambda>err. handleError err Work None))
       (\<lambda>u. and_then (processTasks sortedTasks) (\<lambda>u. ackMessages messages))
       (s\<lparr>phase := Work, currentInterval := baseInterval s\<rparr>)"

definition idle_cycle :: "('t, 'm, 'w) poller \<Rightarrow> unit outcome \<times> ('t, 'm, 'w) poller" where
  "idle_cycle s =
     try_catch
       (\<lambda>s. await_hook (OnIdle (workerId s))
              (map_option (\<lambda>f. f (workerId s)) (onIdle (hooks s))) () s)
       (\<lambda>err. handleError err Idle None)
       (s\<lparr>phase := Idle,
          currentInterval := min (currentInterval s * backoffMultiplier s) (maxInterval s)\<rparr>)"

definition poll ::
  "('t, 'm, 'w) poller \<Rightarrow> ('t task list \<times> 'm message list) outcome \<times> ('t, 'm, 'w) poller" where
  "poll s =
     (if \<not> running s then (Resolved ([], []), s)
      else
        (case fetch s of
           (Rejected err, s1) \<Rightarrow>
             and_then (handleError err (phase s1) None)
               (\<lambda>u s2. (Resolved ([], []), scheduleNext s2)) s1
         | (Resolved (tasks, messages), s1) \<Rightarrow>
             (let sortedTasks = triage tasks in
              and_then
                (if sortedTasks \<noteq> [] \<or> messages \<noteq> []
                 then work_cycle sortedTasks messages
                 else idle_cycle)
                (\<lambda>u s2. (Resolved (sortedTasks, messages), scheduleNext s2)) s1)))"

section \<open>Startup and the public surface (Poller.start)\<close>

definition start :: "('t, 'm, 'w) poller \<Rightarrow> unit outcome \<times> ('t, 'm, 'w) poller" where
  "start s =
     (if running s then (Resolved (), s)
      else
        (let s1 = s\<lparr>running := True, phase := Boot\<rparr> in
         case await_hook (OnBoot (workerId s1))
                (map_option (\<lambda>f. f (workerId s1)) (onBoot (hooks s1))) None s1 of
           (Resolved proceed, s2) \<Rightarrow>
             if proceed = Some False then (Resolved (), s2\<lparr>running := False\<rparr>)
             else and_then poll (\<lambda>r. resolve ()) s2
         | (Rejected err, s2) \<Rightarrow>
             and_then (handleError err Boot None)
               (\<lambda>u s3. (Resolved (), s3\<lparr>running := False\<rparr>)) s2))"

text \<open>A pending timeout fires: it leaves the host's table and runs a cycle.\<close>

definition fire ::
  "nat \<Rightarrow> ('t, 'm, 'w) poller \<Rightarrow> ('t task list \<times> 'm message list) outcome \<times> ('t, 'm, 'w) poller" where
  "fire h s =
     (if h \<in> fst ` set (timeouts s)
      then poll (s\<lparr>timeouts := clearTimeout h (timeouts s)\<rparr>)
      else (Resolved ([], []), s))"

text \<open>What can happen to an engine from outside, and a history of such events.\<close>

datatype api = Start | Stop | Poll | Fire nat

fun run :: "api \<Rightarrow> ('t, 'm, 'w) poller \<Rightarrow> ('t, 'm, 'w) poller" where
  "run Start s = snd (start s)"
| "run Stop s = snd (stop s)"
| "run Poll s = snd (poll s)"
| "run (Fire h) s = snd (fire h s)"

definition run_all :: "api list \<Rightarrow> ('t, 'm, 'w) poller \<Rightarrow> ('t, 'm, 'w) poller" where
  "run_all events s = foldl (\<lambda>s' a. run a s') s events"

section \<open>Observations on the trace\<close>

definition calls :: "('t, 'm, 'w) poller \<Rightarrow> ('t, 'm) call list" where
  "calls s = map fst (trace s)"

text \<open>The entry an optional hook leaves: none when the hook is absent.\<close>

definition invoked :: "'h option \<Rightarrow> 'c \<Rightarrow> 'c list" where
  "invoked h c = (case h of None \<Rightarrow> [] | Some f \<Rightarrow> [c])"

text \<open>The entries added to the trace between two states.\<close>

definition since ::
  "('t, 'm, 'w) poller \<Rightarrow> ('t, 'm, 'w) poller \<Rightarrow> (('t, 'm) call \<times> error option) list" where
  "since s s' = drop (length (trace s)) (trace s')"

definition grows :: "('t, 'm, 'w) poller \<Rightarrow> ('t, 'm, 'w) poller \<Rightarrow> bool" where
  "grows s s' = (take (length (trace s)) (trace s') = trace s)"

text \<open>The fields no method assigns after construction.\<close>

definition same_setup :: "('t, 'm, 'w) poller \<Rightarrow> ('t, 'm, 'w) poller \<Rightarrow> bool" where
  "same_setup s s' =
     (workerId s' = workerId s \<and> source s' = source s \<and> baseInterval s' = baseInterval s
      \<and> maxInterval s' = maxInterval s \<and> backoffMultiplier s' = backoffMultiplier s
      \<and> hooks s' = hooks s \<and> race s' = race s)"

text \<open>
  What a part of a cycle may do to the engine: it extends the trace and moves the
  world; the engine's own fields change only if \<open>stop()\<close> intervened, and then the
  engine is no longer running.
\<close>

definition inner :: "('t, 'm, 'w) poller \<Rightarrow> ('t, 'm, 'w) poller \<Rightarrow> bool" where
  "inner s s' =
     (grows s s' \<and> same_setup s s' \<and> currentInterval s' = currentInterval s
      \<and> nextHandle s' = nextHandle s
      \<and> (if running s' then running s \<and> phase s' = phase s \<and> timer s' = timer s
            \<and> timeouts s' = timeouts s
          else True))"

text \<open>A step that only moves the world and extends the trace.\<close>

definition quiet :: "('t, 'm, 'w) poller \<Rightarrow> ('t, 'm, 'w) poller \<Rightarrow> bool" where
  "quiet s s' = (grows s s' \<and> s' = s\<lparr>world := world s', trace := trace s'\<rparr>)"

text \<open>
  Readings of a piece of trace: the acknowledgements sent, the identifiers claimed, the
  errors handed to the error hook, the failures of calls other than the error hook
  and the two fetches, the failures of the two fetches, the errors reported with tag
  work and no task, and the failures of acknowledgements.
\<close>

type_synonym ('t, 'm) entry = "('t, 'm) call \<times> error option"

text \<open>
  A report is an error with the tag and the task (its identifier) it was handed to the
  error hook with. \<open>context_of\<close> gives the tag and task under which the code reports a
  failure of a call: those of the \<open>catch\<close> block around the call.
\<close>

type_synonym report = "error \<times> lifecycle_phase \<times> string option"

fun context_of :: "('t, 'm) call \<Rightarrow> lifecycle_phase \<times> string option" where
  "context_of (Claim i) = (Work, Some i)"
| "context_of (Complete i) = (Work, Some i)"
| "context_of (OnTaskStart task) = (Work, Some (tid task))"
| "context_of (OnTaskComplete task) = (Work, Some (tid task))"
| "context_of (Ack target text) = (Work, None)"
| "context_of (OnWork ts ms) = (Work, None)"
| "context_of (OnIdle w) = (Idle, None)"
| "context_of (OnBoot w) = (Boot, None)"
| "context_of (OnShutdown w) = (Shutdown, None)"
| "context_of c = (Boot, None)"

fun ack_of :: "('t, 'm) entry \<Rightarrow> ('t, 'm) call list" where
  "ack_of (Ack target text, r) = [Ack target text]"
| "ack_of e = []"

fun claim_of :: "('t, 'm) entry \<Rightarrow> string list" where
  "claim_of (Claim i, r) = [i]"
| "claim_of e = []"

fun report_of :: "('t, 'm) entry \<Rightarrow> report list" where
  "report_of (OnError err ph task, r) = [(err, ph, map_option tid task)]"
| "report_of e = []"

fun failure_of :: "('t, 'm) entry \<Rightarrow> report list" where
  "failure_of (OnError err ph task, r) = []"
| "failure_of (GetTasks, r) = []"
| "failure_of (GetMessages, r) = []"
| "failure_of (c, Some err) = [(err, context_of c)]"
| "failure_of (c, None) = []"

fun fetch_failure_of :: "('t, 'm) entry \<Rightarrow> error list" where
  "fetch_failure_of (GetTasks, Some err) = [err]"
| "fetch_failure_of (GetMessages, Some err) = [err]"
| "fetch_failure_of e = []"

fun work_report_of :: "('t, 'm) entry \<Rightarrow> error list" where
  "work_report_of (OnError err Work None, r) = [err]"
| "work_report_of e = []"

fun ack_failure_of :: "('t, 'm) entry \<Rightarrow> error list" where
  "ack_failure_of (Ack target text, Some err) = [err]"
| "ack_failure_of e = []"

definition acks :: "('t, 'm) entry list \<Rightarrow> ('t, 'm) call list" where
  "acks d = concat (map ack_of d)"

definition claims_made :: "('t, 'm) entry list \<Rightarrow> string list" where
  "claims_made d = concat (map claim_of d)"

definition reported :: "('t, 'm) entry list \<Rightarrow> report multiset" where
  "reported d = mset (concat (map report_of d))"

definition failed :: "('t, 'm) entry list \<Rightarrow> report multiset" where
  "failed d = mset (concat (map failure_of d))"

definition fetch_failures :: "('t, 'm) entry list \<Rightarrow> error list" where
  "fetch_failures d = concat (map fetch_failure_of d)"

definition work_reports :: "('t, 'm) entry list \<Rightarrow> error list" where
  "work_reports d = concat (map work_report_of d)"

definition ack_failures :: "('t, 'm) entry list \<Rightarrow> error list" where
  "ack_failures d = concat (map ack_failure_of d)"

text \<open>Every failure in a piece of trace was reported once, if an error hook exists.\<close>

definition balanced :: "('t, 'm, 'w) poller \<Rightarrow> ('t, 'm) entry list \<Rightarrow> bool" where
  "balanced s d = (reported d = (case onError (hooks s) of None \<Rightarrow> {#} | Some f \<Rightarrow> failed d))"

text \<open>
  A piece of trace that holds no acknowledgement, claim or fetch, and in which every
  failure was reported under a tag other than work: what an intervening \<open>stop()\<close>
  leaves.
\<close>

definition noise :: "('t, 'm, 'w) poller \<Rightarrow> ('t, 'm) entry list \<Rightarrow> bool" where
  "noise s d =
     (acks d = [] \<and> claims_made d = [] \<and> fetch_failures d = [] \<and> work_reports d = []
      \<and> ack_failures d = [] \<and> balanced s d)"

text \<open>What \<open>stop\<close> adds to the trace: the shutdown hook, if there is one, and the report
  of its failure, if it failed and there is an error hook.\<close>

definition stop_entries :: "('t, 'm, 'w) poller \<Rightarrow> error option \<Rightarrow> error option \<Rightarrow> ('t, 'm) entry list" where
  "stop_entries s fl r2 =
     (case onShutdown (hooks s) of
        None \<Rightarrow> []
      | Some f \<Rightarrow>
          (OnShutdown (workerId s), fl) #
          (case fl of
             None \<Rightarrow> []
           | Some err \<Rightarrow>
               (case onError (hooks s) of
                  None \<Rightarrow> []
                | Some g \<Rightarrow> [(OnError err Shutdown None, r2)])))"


subsection \<open>Readings that every part of a cycle respects\<close>

text \<open>
  Proof vocabulary. A piece of trace is \<open>silent\<close> when it holds nothing the readings
  above look for apart from reports and failures; a reading is closed when it holds of
  the empty trace, of concatenations and of silent pieces; an action \<open>emits\<close> a reading
  when every run of it is an \<open>inner\<close> step whose trace satisfies the reading; an action
  is \<open>total\<close> when it never settles as rejected; and it is \<open>tracked\<close> in a context
  (a tag and a task) when, in each run, the reports made equal the failures that
  occurred, each under the tag and task of its call, less the one failure the action
  itself is rejected with (which its caller still has to report in that context).
\<close>

definition silent :: "('t, 'm) entry list \<Rightarrow> bool" where
  "silent d =
     (acks d = [] \<and> claims_made d = [] \<and> fetch_failures d = [] \<and> work_reports d = []
      \<and> ack_failures d = [])"




fun pending :: "lifecycle_phase \<times> string option \<Rightarrow> 'a outcome \<Rightarrow> report multiset" where
  "pending ctx (Resolved v) = {#}"
| "pending ctx (Rejected err) = {#(err, ctx)#}"






definition ack_reading :: "('t, 'm, 'w) poller \<Rightarrow> ('t, 'm) entry list \<Rightarrow> bool" where
  "ack_reading s d =
     (work_reports d = (case onError (hooks s) of None \<Rightarrow> [] | Some f \<Rightarrow> ack_failures d))"

subsection \<open>Parts of the source functions, named for the proofs\<close>



definition idle_hook :: "('t, 'm, 'w) poller \<Rightarrow> unit outcome \<times> ('t, 'm, 'w) poller" where
  "idle_hook =
     try_catch
       (\<lambda>s. await_hook (OnIdle (workerId s))
              (map_option (\<lambda>f. f (workerId s)) (onIdle (hooks s))) () s)
       (\<lambda>err. handleError err Idle None)"

subsection \<open>The backoff range\<close>




section \<open>Example inputs\<close>

text \<open>Concrete tasks, collaborators and engines on which the results below are run.\<close>

definition mk_task :: "string \<Rightarrow> string \<Rightarrow> unit task" where
  "mk_task i p = \<lparr>tid = i, priority = Some p, payload = (), createdAt = None\<rparr>"


definition ok_reply :: "'a \<Rightarrow> 'w \<Rightarrow> 'a reply \<times> 'w" where
  "ok_reply v w = (Reply (Resolved v) False, w)"

definition failing :: "error \<Rightarrow> 'w \<Rightarrow> 'a reply \<times> 'w" where
  "failing err w = (Reply (Rejected err) False, w)"

definition fixed_source :: "unit task list \<Rightarrow> unit message list \<Rightarrow> (unit, unit, nat) task_source" where
  "fixed_source ts ms =
     \<lparr>getTasks = ok_reply ts, getMessages = ok_reply ms, claim = (\<lambda>i. ok_reply True),
      complete = (\<lambda>i. ok_reply ()), ack = (\<lambda>target text. ok_reply ())\<rparr>"

definition test_options :: "(unit, unit, nat) task_source \<Rightarrow> (unit, unit, nat) poll_hooks_options" where
  "test_options src =
     \<lparr>opt_workerId = ''test'', opt_source = src, intervalMs = Some 1000,
      maxIntervalMs = Some 5000, opt_backoffMultiplier = Some 2\<rparr>"

definition counting_hooks :: "(unit, unit, nat) lifecycle_hooks" where
  "counting_hooks = no_hooks\<lparr>onShutdown := Some (\<lambda>wid w. (Reply (Resolved ()) False, Suc w))\<rparr>"

definition counting_engine :: "(unit, unit, nat) poller" where
  "counting_engine = Poller (test_options (fixed_source [] [])) (Some counting_hooks) 0 (\<lambda>w. False)"

definition idle_engine :: "(unit, unit, nat) poller" where
  "idle_engine = Poller (test_options (fixed_source [] [])) None 0 (\<lambda>w. False)"




text \<open>A source that has no work for the first two fetches and one task afterwards; the
  world counts the task fetches.\<close>

definition late_source :: "(unit, unit, nat) task_source" where
  "late_source =
     \<lparr>getTasks = (\<lambda>w. (Reply (Resolved (if w < 2 then [] else [mk_task ''t1'' ''sprint''])) False,
                         Suc w)),
      getMessages = ok_reply [], claim = (\<lambda>i. ok_reply True),
      complete = (\<lambda>i. ok_reply ()), ack = (\<lambda>target text. ok_reply ())\<rparr>"

definition late_engine :: "(unit, unit, nat) poller" where
  "late_engine = Poller (test_options late_source) None 0 (\<lambda>w. False)"















section \<open>Triage: ordering, stability, idempotence\<close>

lemmas triage_eval =
  triage_def array_sort_def sort_compare_def compare_priority_def priority_rank_def
  PRIORITY_ORDER_def object_prototype_keys_def numeric_priority_def rank_def spec_rank_def
  known_priority_def mk_task_def

lemma priority_rank_numeric: "numeric_priority a \<Longrightarrow> priority_rank a = Num (rank a)"
  by (cases "priority a")
     (auto simp: numeric_priority_def rank_def spec_rank_def priority_rank_def PRIORITY_ORDER_def)

lemma sort_compare_numeric:
  "numeric_priority a \<Longrightarrow> numeric_priority b \<Longrightarrow>
   (sort_compare compare_priority a b \<le> 0) = (rank a \<le> rank b)"
  by (simp add: sort_compare_def compare_priority_def priority_rank_numeric)

lemma insert_stable_insort:
  "numeric_priority x \<Longrightarrow> list_all numeric_priority ys \<Longrightarrow>
   insert_stable compare_priority x ys = insort_key rank x ys"
  by (induction ys) (simp_all add: sort_compare_numeric)

text \<open>On such tasks the comparator is consistent and triage is the stable sort by rank.\<close>

lemma triage_sort_key:
  "list_all numeric_priority ts \<Longrightarrow> triage ts = sort_key rank ts"
proof (induction ts)
  case Nil
  then show ?case by (simp add: triage_def array_sort_def)
next
  case (Cons t ts)
  then have ih: "foldr (insert_stable compare_priority) ts [] = sort_key rank ts"
    by (simp add: triage_def array_sort_def)
  have "list_all numeric_priority (sort_key rank ts)"
    using Cons.prems by (simp add: list_all_iff)
  with Cons.prems ih show ?case
    by (simp add: triage_def array_sort_def insert_stable_insort)
qed




text \<open>Known priorities come first when no priority names an inherited member.\<close>

lemma triage_known_first:
  assumes "list_all numeric_priority ts"
  shows "triage ts =
           filter known_priority (triage ts) @ filter (\<lambda>t. \<not> known_priority t) (triage ts)"
proof -
  have s: "sorted (map rank (triage ts))"
    using assms by (simp add: triage_sort_key)
  have "sorted (map rank xs) \<Longrightarrow>
        xs = filter known_priority xs @ filter (\<lambda>t. \<not> known_priority t) xs"
    for xs :: "('a, 'b) task_scheme list"
  proof (induction xs)
    case Nil
    then show ?case by simp
  next
    case (Cons x xs)
    show ?case
    proof (cases "known_priority x")
      case True
      with Cons show ?thesis by simp
    next
      case False
      then have "\<forall>y\<in>set xs. \<not> known_priority y"
        using Cons.prems by (auto simp: known_priority_def)
      then have "filter known_priority xs = []" "filter (\<lambda>t. \<not> known_priority t) xs = xs"
        by (simp_all add: filter_empty_conv)
      with False show ?thesis by simp
    qed
  qed
  from this[OF s] show ?thesis .
qed







text \<open>
  C3 at a failing input. A task whose priority is \<open>toString\<close>, a name that every
  object literal inherits, reads a function from the table; the default 999 is not
  taken, the comparison is \<open>NaN\<close>, and the task stays in front of an interrupt task.
\<close>

theorem triage_inherited_key_stays_first:
  "triage [mk_task ''a'' ''toString'', mk_task ''b'' ''interrupt'']
     = [mk_task ''a'' ''toString'', mk_task ''b'' ''interrupt'']
   \<and> \<not> known_priority (mk_task ''a'' ''toString'')
   \<and> known_priority (mk_task ''b'' ''interrupt'')"
  by (simp add: triage_eval)

section \<open>The engine: trace, frame and isolation lemmas\<close>

lemma grows_refl: "grows s s"
  by (simp add: grows_def)

lemma grows_append: "trace s' = trace s @ d \<Longrightarrow> grows s s'"
  by (simp add: grows_def)

lemma grows_since: "grows s s' \<Longrightarrow> trace s' = trace s @ since s s'"
proof -
  assume "grows s s'"
  then have "take (length (trace s)) (trace s') = trace s" by (simp add: grows_def)
  then have "trace s @ drop (length (trace s)) (trace s') = trace s'"
    using append_take_drop_id[of "length (trace s)" "trace s'"] by simp
  then show ?thesis by (simp add: since_def)
qed

lemma grows_trans: "grows s s' \<Longrightarrow> grows s' s'' \<Longrightarrow> grows s s''"
proof -
  assume a: "grows s s'" and b: "grows s' s''"
  have "trace s'' = trace s @ (since s s' @ since s' s'')"
    using grows_since[OF a] grows_since[OF b] by simp
  then show ?thesis by (rule grows_append)
qed

lemma since_append: "trace s' = trace s @ d \<Longrightarrow> since s s' = d"
  by (simp add: since_def)

lemma since_trans:
  "grows s s' \<Longrightarrow> grows s' s'' \<Longrightarrow> since s s'' = since s s' @ since s' s''"
proof -
  assume a: "grows s s'" and b: "grows s' s''"
  have "trace s'' = trace s @ (since s s' @ since s' s'')"
    using grows_since[OF a] grows_since[OF b] by simp
  then show ?thesis by (rule since_append)
qed

lemma since_refl: "since s s = []"
  by (simp add: since_def)

lemma inner_refl: "inner s s"
  by (simp add: inner_def grows_refl same_setup_def)


lemma inner_trans: "inner s s' \<Longrightarrow> inner s' s'' \<Longrightarrow> inner s s''"
proof -
  assume a: "inner s s'" and b: "inner s' s''"
  have g: "grows s s''" using a b by (auto simp: inner_def intro: grows_trans)
  have "same_setup s s''" using a b by (simp add: inner_def same_setup_def)
  moreover have "currentInterval s'' = currentInterval s" "nextHandle s'' = nextHandle s"
    using a b by (simp_all add: inner_def)
  moreover have "running s'' \<Longrightarrow> running s \<and> phase s'' = phase s \<and> timer s'' = timer s
            \<and> timeouts s'' = timeouts s"
    using a b by (simp add: inner_def split: if_splits)
  ultimately show ?thesis using g by (simp add: inner_def)
qed

lemma handleError_resolves: "fst (handleError err ph t s) = Resolved ()"
  by (simp add: handleError_def split: option.splits prod.splits outcome.splits)

lemma inner_direct: "direct c f s = (rep, s') \<Longrightarrow> inner s s'"
  by (auto simp: direct_def inner_def same_setup_def grows_def split: prod.splits)

lemma since_direct: "direct c f s = (rep, s') \<Longrightarrow> since s s' = [(c, failure (settled rep))]"
  by (auto simp: direct_def since_def split: prod.splits)

lemma quiet_refl: "quiet s s"
  by (simp add: quiet_def grows_refl)

lemma quiet_inner: "quiet s s' \<Longrightarrow> inner s s'"
proof -
  assume q: "quiet s s'"
  then have e: "s' = s\<lparr>world := world s', trace := trace s'\<rparr>" and g: "grows s s'"
    by (simp_all add: quiet_def)
  have "workerId s' = workerId s" "source s' = source s" "baseInterval s' = baseInterval s"
    "maxInterval s' = maxInterval s" "backoffMultiplier s' = backoffMultiplier s"
    "hooks s' = hooks s" "race s' = race s" "currentInterval s' = currentInterval s"
    "nextHandle s' = nextHandle s" "running s' = running s" "phase s' = phase s"
    "timer s' = timer s" "timeouts s' = timeouts s"
    by (subst e, simp)+
  with g show ?thesis by (simp add: inner_def same_setup_def)
qed

lemma inner_running_quiet: "inner s s' \<Longrightarrow> running s' \<Longrightarrow> quiet s s'"
  by (simp add: inner_def same_setup_def quiet_def)

lemma quiet_direct: "direct c f s = (rep, s') \<Longrightarrow> quiet s s'"
  by (auto simp: direct_def quiet_def grows_def split: prod.splits)

lemma quiet_trans: "quiet s s' \<Longrightarrow> quiet s' s'' \<Longrightarrow> quiet s s''"
proof -
  assume a: "quiet s s'" and b: "quiet s' s''"
  have g: "grows s s''" using a b by (auto simp: quiet_def intro: grows_trans)
  have "s'' = s'\<lparr>world := world s'', trace := trace s''\<rparr>" using b by (simp add: quiet_def)
  also have "s' = s\<lparr>world := world s', trace := trace s'\<rparr>" using a by (simp add: quiet_def)
  finally have "s'' = s\<lparr>world := world s'', trace := trace s''\<rparr>" by simp
  with g show ?thesis by (simp add: quiet_def)
qed

lemma projections_append:
  "acks (d @ d') = acks d @ acks d'"
  "claims_made (d @ d') = claims_made d @ claims_made d'"
  "reported (d @ d') = reported d + reported d'"
  "failed (d @ d') = failed d + failed d'"
  "fetch_failures (d @ d') = fetch_failures d @ fetch_failures d'"
  "work_reports (d @ d') = work_reports d @ work_reports d'"
  "ack_failures (d @ d') = ack_failures d @ ack_failures d'"
  by (simp_all add: acks_def claims_made_def reported_def failed_def fetch_failures_def
      work_reports_def ack_failures_def)

lemma projections_Nil:
  "acks [] = []" "claims_made [] = []" "reported [] = {#}" "failed [] = {#}"
  "fetch_failures [] = []" "work_reports [] = []" "ack_failures [] = []"
  by (simp_all add: acks_def claims_made_def reported_def failed_def fetch_failures_def
      work_reports_def ack_failures_def)

lemma balanced_Nil: "balanced s []"
  by (simp add: balanced_def projections_Nil split: option.splits)

lemma balanced_append:
  "balanced s d \<Longrightarrow> balanced s d' \<Longrightarrow> balanced s (d @ d')"
  by (simp add: balanced_def projections_append split: option.splits)

lemma balanced_setup: "same_setup s s' \<Longrightarrow> balanced s' d = balanced s d"
  by (simp add: balanced_def same_setup_def)

lemma projections_Cons:
  "acks (e # d) = ack_of e @ acks d"
  "claims_made (e # d) = claim_of e @ claims_made d"
  "reported (e # d) = mset (report_of e) + reported d"
  "failed (e # d) = mset (failure_of e) + failed d"
  "fetch_failures (e # d) = fetch_failure_of e @ fetch_failures d"
  "work_reports (e # d) = work_report_of e @ work_reports d"
  "ack_failures (e # d) = ack_failure_of e @ ack_failures d"
  by (simp_all add: acks_def claims_made_def reported_def failed_def fetch_failures_def
      work_reports_def ack_failures_def)

lemmas projections = projections_append projections_Nil projections_Cons

lemma noise_Nil: "noise s []"
  by (simp add: noise_def projections balanced_Nil)

lemma noise_append: "noise s d \<Longrightarrow> noise s d' \<Longrightarrow> noise s (d @ d')"
  by (simp add: noise_def projections balanced_append)

lemma noise_setup: "same_setup s s' \<Longrightarrow> noise s' d = noise s d"
  by (simp add: noise_def balanced_setup)

lemma handleError_spec:
  assumes "handleError err ph t s = (r, s')"
  shows "r = Resolved ()" and "quiet s s'"
    and "\<exists>r2. since s s' = (case onError (hooks s) of None \<Rightarrow> [] | Some f \<Rightarrow> [(OnError err ph t, r2)])"
proof -
  show "r = Resolved ()" using assms handleError_resolves[of err ph t s] by simp
  show "quiet s s'"
    using assms
    by (auto simp: handleError_def quiet_refl split: option.splits prod.splits outcome.splits
        dest: quiet_direct)
  show "\<exists>r2. since s s' = (case onError (hooks s) of None \<Rightarrow> [] | Some f \<Rightarrow> [(OnError err ph t, r2)])"
    using assms
    by (auto simp: handleError_def since_refl split: option.splits prod.splits outcome.splits
        dest: since_direct)
qed




lemma try_catch_cases:
  assumes "try_catch m h s = (r, s')"
  obtains (ok) v where "m s = (Resolved v, s')" and "r = Resolved v"
  | (caught) err s1 where "m s = (Rejected err, s1)" and "h err s1 = (r, s')"
  using assms by (auto simp: try_catch_def split: prod.splits outcome.splits)

lemma quiet_since: "quiet s s' \<Longrightarrow> trace s' = trace s @ since s s'"
  by (simp add: quiet_def grows_since)

lemma stop_body:
  fixes s :: "('t, 'm, 'w) poller"
  assumes "try_catch
           (\<lambda>s. case onShutdown (hooks s) of
                   None \<Rightarrow> (Resolved (), s)
                 | Some f \<Rightarrow>
                     (case direct (OnShutdown (workerId s)) (f (workerId s)) s of
                        (rep, s') \<Rightarrow> (settled rep, s')))
           (\<lambda>err. handleError err Shutdown None) s = (r, s')"
  shows "r = Resolved () \<and> quiet s s'
       \<and> (\<exists>fl r2. since s s' =
             (case onShutdown (hooks s) of
                None \<Rightarrow> []
              | Some f \<Rightarrow>
                  (OnShutdown (workerId s), fl) #
                  (case fl of
                     None \<Rightarrow> []
                   | Some err \<Rightarrow>
                       (case onError (hooks s) of
                          None \<Rightarrow> []
                        | Some g \<Rightarrow> [(OnError err Shutdown None, r2)]))))"
  using assms
proof (cases rule: try_catch_cases)
  case (ok v)
  show ?thesis
  proof (cases "onShutdown (hooks s)")
    case None
    with ok show ?thesis by (simp add: quiet_refl since_refl)
  next
    case (Some f)
    with ok obtain rep where d: "direct (OnShutdown (workerId s)) (f (workerId s)) s = (rep, s')"
      and res: "settled rep = Resolved v"
      by (auto split: prod.splits)
    have "since s s' = [(OnShutdown (workerId s), None)]"
      using since_direct[OF d] res by simp
    then have "\<exists>fl r2. since s s' = (OnShutdown (workerId s), fl) #
                  (case fl of
                     None \<Rightarrow> []
                   | Some err \<Rightarrow>
                       (case onError (hooks s) of
                          None \<Rightarrow> []
                        | Some g \<Rightarrow> [(OnError err Shutdown None, r2)]))"
      by (intro exI[of _ None]) simp
    with Some ok(2) quiet_direct[OF d] show ?thesis by simp
  qed
next
  case (caught err s1)
  from caught(1) obtain f rep where f: "onShutdown (hooks s) = Some f"
    and d: "direct (OnShutdown (workerId s)) (f (workerId s)) s = (rep, s1)"
    and rej: "settled rep = Rejected err"
    by (auto split: option.splits prod.splits)
  have q1: "quiet s s1" using d by (rule quiet_direct)
  have t1: "since s s1 = [(OnShutdown (workerId s), Some err)]"
    using since_direct[OF d] rej by simp
  have q2: "quiet s1 s'" and r: "r = Resolved ()" using handleError_spec(1,2)[OF caught(2)] by simp_all
  have h: "hooks s1 = hooks s" using quiet_inner[OF q1] by (simp add: inner_def same_setup_def)
  obtain r2 where t2: "since s1 s' = (case onError (hooks s) of None \<Rightarrow> [] | Some g \<Rightarrow> [(OnError err Shutdown None, r2)])"
    using handleError_spec(3)[OF caught(2)] h by auto
  have "since s s' = since s s1 @ since s1 s'"
    using q1 q2 by (simp add: since_trans quiet_def)
  with t1 t2 f have "since s s' = (case onShutdown (hooks s) of
                None \<Rightarrow> []
              | Some f \<Rightarrow>
                  (OnShutdown (workerId s), Some err) #
                  (case Some err of
                     None \<Rightarrow> []
                   | Some err \<Rightarrow>
                       (case onError (hooks s) of
                          None \<Rightarrow> []
                        | Some g \<Rightarrow> [(OnError err Shutdown None, r2)])))"
    by simp
  then show ?thesis using r quiet_trans[OF q1 q2] by blast
qed

lemma stop_spec:
  assumes "stop s = (r, s')"
  shows "r = Resolved ()"
    and "\<not> running s'" and "phase s' = Shutdown" and "timer s' = None"
    and "timeouts s' = (case timer s of None \<Rightarrow> timeouts s | Some h \<Rightarrow> clearTimeout h (timeouts s))"
    and "same_setup s s'" and "currentInterval s' = currentInterval s"
    and "nextHandle s' = nextHandle s" and "grows s s'"
    and "\<exists>fl r2. since s s' = stop_entries s fl r2"
proof -
  define s3 where "s3 = (case timer s of None \<Rightarrow> s\<lparr>running := False\<rparr>
      | Some h \<Rightarrow> s\<lparr>running := False, timeouts := clearTimeout h (timeouts s), timer := None\<rparr>)\<lparr>phase := Shutdown\<rparr>"
  have s3: "\<not> running s3" "phase s3 = Shutdown" "timer s3 = None"
    "timeouts s3 = (case timer s of None \<Rightarrow> timeouts s | Some h \<Rightarrow> clearTimeout h (timeouts s))"
    "same_setup s s3" "currentInterval s3 = currentInterval s" "nextHandle s3 = nextHandle s"
    "trace s3 = trace s" "hooks s3 = hooks s" "workerId s3 = workerId s"
    by (simp_all add: s3_def same_setup_def split: option.splits)
  have body: "try_catch
           (\<lambda>s. case onShutdown (hooks s) of
                   None \<Rightarrow> (Resolved (), s)
                 | Some f \<Rightarrow>
                     (case direct (OnShutdown (workerId s)) (f (workerId s)) s of
                        (rep, s') \<Rightarrow> (settled rep, s')))
           (\<lambda>err. handleError err Shutdown None) s3 = (r, s')"
    using assms by (simp add: stop_def Let_def s3_def split: option.splits)
  note b = stop_body[OF body]
  from b show "r = Resolved ()" by simp
  from b have q: "quiet s3 s'" by simp
  then have e: "s' = s3\<lparr>world := world s', trace := trace s'\<rparr>" and g: "grows s3 s'"
    by (simp_all add: quiet_def)
  show "\<not> running s'" by (subst e) (simp add: s3)
  show "phase s' = Shutdown" by (subst e) (simp add: s3)
  show "timer s' = None" by (subst e) (simp add: s3)
  show "timeouts s' = (case timer s of None \<Rightarrow> timeouts s | Some h \<Rightarrow> clearTimeout h (timeouts s))"
    by (subst e) (simp add: s3)
  show "same_setup s s'" using quiet_inner[OF q] s3(5) by (simp add: inner_def same_setup_def)
  show "currentInterval s' = currentInterval s" by (subst e) (simp add: s3)
  show "nextHandle s' = nextHandle s" by (subst e) (simp add: s3)
  show "grows s s'" using g s3(8) by (simp add: grows_def)
  have "since s s' = since s3 s'" by (simp add: since_def s3(8))
  moreover from b have "\<exists>fl r2. since s3 s' = stop_entries s fl r2"
    unfolding stop_entries_def s3(9,10) by simp
  ultimately show "\<exists>fl r2. since s s' = stop_entries s fl r2" by simp
qed

lemma stop_inner: "stop s = (r, s') \<Longrightarrow> inner s s'"
  using stop_spec[of s r s'] by (simp add: inner_def)

lemma noise_stop_entries: "noise s (stop_entries s fl r2)"
  by (auto simp: noise_def stop_entries_def projections balanced_def
      split: option.splits)

lemma stop_noise: "stop s = (r, s') \<Longrightarrow> noise s (since s s')"
  using stop_spec(10)[of s r s'] noise_stop_entries[of s] by auto

lemma noise_silent: "noise s d \<Longrightarrow> silent d"
  by (simp add: noise_def silent_def)



lemma inner_since_trans: "inner s s' \<Longrightarrow> inner s' s'' \<Longrightarrow> since s s'' = since s s' @ since s' s''"
  by (simp add: inner_def since_trans)





lemma silent_stop_entries: "silent (stop_entries s fl r2)"
  using noise_stop_entries[of s fl r2] by (rule noise_silent)

lemma await_spec:
  assumes "await c f s = (r, s')"
  shows "inner s s'"
    and "r = settled (fst (f (world s)))"
    and "\<exists>d. since s s' = (c, failure r) # d \<and> noise s d \<and> (running s' \<longrightarrow> d = [] \<and> world s' = snd (f (world s)))"
proof -
  obtain rep s1 where d: "direct c f s = (rep, s1)" by (cases "direct c f s")
  have rep: "rep = fst (f (world s))" and w1: "world s1 = snd (f (world s))"
    using d by (auto simp: direct_def split: prod.splits)
  have r: "r = settled rep" using assms d by (simp add: await_def)
  then show "r = settled (fst (f (world s)))" using rep by simp
  have q1: "quiet s s1" using d by (rule quiet_direct)
  have t1: "since s s1 = [(c, failure r)]" using since_direct[OF d] r by simp
  show "inner s s'"
    and "\<exists>d. since s s' = (c, failure r) # d \<and> noise s d \<and> (running s' \<longrightarrow> d = [] \<and> world s' = snd (f (world s)))"
  proof -
    show "inner s s'"
    proof (cases "stop_called rep")
      case True
      then obtain r0 where "stop s1 = (r0, s')"
        using assms d by (cases "stop s1") (simp add: await_def)
      from stop_inner[OF this] quiet_inner[OF q1] show ?thesis by (rule inner_trans[rotated])
    next
      case False
      then have "s' = s1" using assms d by (simp add: await_def)
      with q1 show ?thesis by (simp add: quiet_inner)
    qed
    show "\<exists>d. since s s' = (c, failure r) # d \<and> noise s d \<and> (running s' \<longrightarrow> d = [] \<and> world s' = snd (f (world s)))"
    proof (cases "stop_called rep")
      case True
      then obtain r0 where st: "stop s1 = (r0, s')"
        using assms d by (cases "stop s1") (simp add: await_def)
      have "since s s' = since s s1 @ since s1 s'"
        using quiet_inner[OF q1] stop_inner[OF st] by (rule inner_since_trans)
      moreover have "same_setup s s1" using quiet_inner[OF q1] by (simp add: inner_def)
      then have "noise s (since s1 s')"
        using stop_noise[OF st] noise_setup[of s s1] by simp
      moreover have "\<not> running s'" using stop_spec(2)[OF st] .
      ultimately show ?thesis using t1 by simp
    next
      case False
      then have "s' = s1" using assms d by (simp add: await_def)
      with t1 w1 show ?thesis by (simp add: noise_Nil)
    qed
  qed
qed


lemma await_hook_spec:
  assumes "await_hook c h d0 s = (r, s')"
  shows "inner s s'"
    and "\<exists>d. since s s' = invoked h (c, failure r) @ d \<and> noise s d \<and> (running s' \<longrightarrow> d = [])"
    and "h = None \<Longrightarrow> r = Resolved d0 \<and> s' = s"
proof -
  show "h = None \<Longrightarrow> r = Resolved d0 \<and> s' = s"
    using assms by (auto simp: await_hook_def)
  show "inner s s'"
    using assms by (cases h) (auto simp: await_hook_def inner_refl dest: await_spec(1))
  show "\<exists>d. since s s' = invoked h (c, failure r) @ d \<and> noise s d \<and> (running s' \<longrightarrow> d = [])"
  proof (cases h)
    case None
    with assms show ?thesis by (simp add: await_hook_def invoked_def since_refl noise_Nil)
  next
    case (Some f)
    with assms have "await c f s = (r, s')" by (simp add: await_hook_def)
    from await_spec(3)[OF this] Some show ?thesis by (auto simp: invoked_def)
  qed
qed






















lemma work_report_of_task [simp]: "work_report_of (OnError err ph (Some t), r) = []"
  by (cases ph) simp_all























lemma ack_reading_noise: "noise s d \<Longrightarrow> ack_reading s d"
  by (simp add: noise_def ack_reading_def split: option.splits)



















lemma idle_hook_quiet:
  fixes s :: "('t, 'm, 'w) poller"
  assumes "idle_hook s = (r, s')" and run: "running s'"
  shows "\<exists>fl r2. since s s' =
           (case onIdle (hooks s) of
              None \<Rightarrow> []
            | Some f \<Rightarrow> (OnIdle (workerId s), fl) #
                (case fl of None \<Rightarrow> [] | Some err \<Rightarrow>
                   (case onError (hooks s) of None \<Rightarrow> [] | Some g \<Rightarrow> [(OnError err Idle None, r2)])))"
  using assms(1) unfolding idle_hook_def
proof (cases rule: try_catch_cases)
  case (ok v)
  from await_hook_spec(2)[OF ok(1)] run
  have "since s s' = invoked (map_option (\<lambda>f. f (workerId s)) (onIdle (hooks s))) (OnIdle (workerId s), None)"
    by auto
  then show ?thesis
    by (cases "onIdle (hooks s)") (auto simp: invoked_def intro: exI[of _ None])
next
  case (caught err s1)
  have i2: "quiet s1 s'" using handleError_spec(2)[OF caught(2)] .
  then have "running s1" using run quiet_inner[OF i2] by (simp add: inner_def)
  with await_hook_spec[OF caught(1)]
  have 1: "inner s s1" "since s s1 = invoked (map_option (\<lambda>f. f (workerId s)) (onIdle (hooks s))) (OnIdle (workerId s), Some err)"
    by auto
  have hk: "hooks s1 = hooks s" using 1(1) by (simp add: inner_def same_setup_def)
  have t: "since s s' = since s s1 @ since s1 s'" using 1(1) quiet_inner[OF i2] by (rule inner_since_trans)
  have ne: "onIdle (hooks s) \<noteq> None" using caught(1) by (auto simp: await_hook_def split: option.splits)
  from handleError_spec(3)[OF caught(2)] obtain r2 where
    "since s1 s' = (case onError (hooks s) of None \<Rightarrow> [] | Some g \<Rightarrow> [(OnError err Idle None, r2)])"
    using hk by auto
  with 1(2) t ne show ?thesis
    by (cases "onIdle (hooks s)") (auto simp: invoked_def intro!: exI[of _ "Some err"] exI[of _ r2])
qed


lemma since_same_trace: "trace s0 = trace s \<Longrightarrow> since s0 s' = since s s'"
  by (simp add: since_def)





section \<open>Shutdown\<close>

lemmas engine_eval =
  Poller_def no_hooks_def test_options_def fixed_source_def ok_reply_def failing_def
  poll_def fetch_def await_def await_hook_def direct_def handleError_def stop_def start_def
  fire_def work_cycle_def idle_cycle_def processTask_def ackMessage_def ack_text_def
  scheduleNext_def setTimeout_def clearTimeout_def and_then_def try_catch_def resolve_def
  run_all_def Let_def invoked_def calls_def since_def

lemma stop_hook_entry:
  assumes "stop s = (r, s')" and "onShutdown (hooks s) = Some f"
  shows "\<exists>d. since s s' = (OnShutdown (workerId s), failure (settled (fst (f (workerId s) (world s))))) # d"
proof -
  define s3 where "s3 = (case timer s of None \<Rightarrow> s\<lparr>running := False\<rparr>
      | Some h \<Rightarrow> s\<lparr>running := False, timeouts := clearTimeout h (timeouts s), timer := None\<rparr>)\<lparr>phase := Shutdown\<rparr>"
  have s3: "trace s3 = trace s" "hooks s3 = hooks s" "workerId s3 = workerId s" "world s3 = world s"
    by (simp_all add: s3_def split: option.splits)
  obtain rep s4 where d: "direct (OnShutdown (workerId s)) (f (workerId s)) s3 = (rep, s4)"
    by (cases "direct (OnShutdown (workerId s)) (f (workerId s)) s3")
  have rep: "rep = fst (f (workerId s) (world s))" using d s3(4) by (auto simp: direct_def split: prod.splits)
  have t4: "since s3 s4 = [(OnShutdown (workerId s), failure (settled rep))]" using since_direct[OF d] .
  have body: "try_catch
           (\<lambda>s. case onShutdown (hooks s) of
                   None \<Rightarrow> (Resolved (), s)
                 | Some f \<Rightarrow>
                     (case direct (OnShutdown (workerId s)) (f (workerId s)) s of
                        (rep, s') \<Rightarrow> (settled rep, s')))
           (\<lambda>err. handleError err Shutdown None) s3 = (r, s')"
    using assms(1) by (simp add: stop_def Let_def s3_def split: option.splits)
  then have "quiet s4 s'"
  proof (cases rule: try_catch_cases)
    case (ok v)
    with d assms(2) s3 have "s' = s4" by simp
    then show ?thesis by (simp add: quiet_refl)
  next
    case (caught err s1)
    with d assms(2) s3 have "s1 = s4" by simp
    with handleError_spec(2)[OF caught(2)] show ?thesis by simp
  qed
  then have "since s3 s' = since s3 s4 @ since s4 s'"
    using quiet_direct[OF d] by (simp add: quiet_def since_trans)
  with t4 rep show ?thesis by (simp add: since_def s3(1))
qed

text \<open>
  C7, as amended. \<open>stop()\<close> never rejects. It clears the running flag, removes the
  timeout held in \<open>timer\<close> from the host's table and clears the field, sets the phase
  to shutdown, and invokes the shutdown hook, if there is one, with the worker
  identity; a failure of that hook is handed to the error hook with tag shutdown.
  A second call leaves the running flag, the phase, the timer and the interval as the
  first call left them; it does invoke the shutdown hook again.
\<close>

theorem stop_effects:
  assumes "stop s = (r, s')" and "stop s' = (r', s'')"
  shows "r = Resolved () \<and> \<not> running s' \<and> phase s' = Shutdown \<and> timer s' = None
       \<and> timeouts s' = (case timer s of None \<Rightarrow> timeouts s | Some h \<Rightarrow> clearTimeout h (timeouts s))
       \<and> (\<exists>fl e2. since s s' = stop_entries s fl e2
             \<and> (case onShutdown (hooks s) of None \<Rightarrow> True
                 | Some f \<Rightarrow> fl = failure (settled (fst (f (workerId s) (world s))))))
       \<and> r' = Resolved () \<and> running s'' = running s' \<and> phase s'' = phase s'
       \<and> timer s'' = timer s' \<and> timeouts s'' = timeouts s'
       \<and> currentInterval s'' = currentInterval s'
       \<and> (\<exists>fl e2. since s' s'' = stop_entries s' fl e2)"
proof -
  note a = stop_spec[OF assms(1)]
  note b = stop_spec[OF assms(2)]
  from a(10) obtain fl e2 where e: "since s s' = stop_entries s fl e2" by blast
  have "case onShutdown (hooks s) of None \<Rightarrow> True
        | Some f \<Rightarrow> fl = failure (settled (fst (f (workerId s) (world s))))"
  proof (cases "onShutdown (hooks s)")
    case None
    then show ?thesis by simp
  next
    case (Some f)
    from stop_hook_entry[OF assms(1) Some] e Some show ?thesis
      by (auto simp: stop_entries_def)
  qed
  with e have "\<exists>fl e2. since s s' = stop_entries s fl e2
             \<and> (case onShutdown (hooks s) of None \<Rightarrow> True
                 | Some f \<Rightarrow> fl = failure (settled (fst (f (workerId s) (world s)))))"
    by blast
  moreover have "timeouts s'' = timeouts s'" using b(5) a(4) by simp
  ultimately show ?thesis using a(1-5) b(1-4,7,10) by simp
qed

theorem stop_effects_witness:
  "stop counting_engine = (Resolved (), run_all [Stop] counting_engine)
   \<and> stop (run_all [Stop] counting_engine) = (Resolved (), run_all [Stop, Stop] counting_engine)
   \<and> phase (run_all [Stop] counting_engine) = Shutdown
   \<and> phase (run_all [Stop, Stop] counting_engine) = phase (run_all [Stop] counting_engine)
   \<and> running (run_all [Stop, Stop] counting_engine) = running (run_all [Stop] counting_engine)"
proof -
  have 1: "stop counting_engine = (Resolved (), run_all [Stop] counting_engine)"
    by (simp add: counting_engine_def counting_hooks_def engine_eval)
  have 2: "stop (run_all [Stop] counting_engine) = (Resolved (), run_all [Stop, Stop] counting_engine)"
    by (simp add: counting_engine_def counting_hooks_def engine_eval)
  from stop_effects[OF 1 2] 1 2 show ?thesis by simp
qed

text \<open>
  C7 as stated fails where it says that a second call has the same observable result
  as one call: with a shutdown hook that counts its invocations in the world, one
  call leaves the count at 1 and two calls leave it at 2. It is also only the timeout
  held in \<open>timer\<close> that \<open>stop\<close> cancels: after \<open>start()\<close> and one direct \<open>poll()\<close>
  two timeouts are pending, the field holds the second, and the first is still
  pending after \<open>stop()\<close>.
\<close>

theorem stop_twice_counterexample:
  "world (snd (stop counting_engine)) = 1
   \<and> world (snd (stop (snd (stop counting_engine)))) = 2
   \<and> calls (snd (stop counting_engine)) = [OnShutdown ''test'']
   \<and> calls (snd (stop (snd (stop counting_engine)))) = [OnShutdown ''test'', OnShutdown ''test'']
   \<and> timeouts (run_all [Start, Poll] idle_engine) = [(0, 2000), (1, 4000)]
   \<and> timer (run_all [Start, Poll] idle_engine) = Some 1
   \<and> timeouts (run_all [Start, Poll, Stop] idle_engine) = [(0, 2000)]"
  by (simp add: counting_engine_def counting_hooks_def idle_engine_def engine_eval triage_eval)

section \<open>The backoff interval\<close>


lemma inner_interval: "inner s s' \<Longrightarrow> currentInterval s' = currentInterval s"
  by (simp add: inner_def)

lemma inner_setup:
  "inner s s' \<Longrightarrow> baseInterval s' = baseInterval s \<and> maxInterval s' = maxInterval s
     \<and> backoffMultiplier s' = backoffMultiplier s \<and> hooks s' = hooks s \<and> source s' = source s
     \<and> workerId s' = workerId s \<and> nextHandle s' = nextHandle s"
  by (simp add: inner_def same_setup_def)
















lemma late_engine_intervals:
  "currentInterval late_engine = 1000"
  "currentInterval (run_all [Start] late_engine) = 2000"
  "currentInterval (run_all [Start, Poll] late_engine) = 4000"
  "currentInterval (run_all [Start, Poll, Poll] late_engine) = 1000"
  by (simp_all add: late_engine_def late_source_def engine_eval triage_eval)



section \<open>A cycle whose fetch fails\<close>







section \<open>Processing one task\<close>












section \<open>The trace of a whole cycle\<close>





lemma poll_stopped: "\<not> running s \<Longrightarrow> poll s = (Resolved ([], []), s)"
  by (simp add: poll_def)










section \<open>Error isolation\<close>








end
